theory Spec2Isabelle
  imports Main "HOL-Library.Multiset"
begin

section \<open>Subscription intake service (main.go): data model\<close>

text \<open>
  The service keeps two SQLite tables, a flat audit file and talks to an SMTP server.
  The handlers of \<^verbatim>\<open>main.go\<close> are embedded as functions from a request and the state of
  these collaborators (the \<open>world\<close>) to a response and the new state. What the
  collaborators do beyond the program's control in one request (a driver error, a file
  that cannot be opened, written or read, a mail transport error, the order of a table
  scan, the clock) is the \<open>env\<close> of that request.

  Strings are byte strings, as Go's are; the two non-ASCII marks of the source are
  written as their UTF-8 bytes.
\<close>

subsection \<open>Tables created by createTables\<close>

text \<open>
  \<^verbatim>\<open>subscribers(id INTEGER PRIMARY KEY AUTOINCREMENT, email TEXT UNIQUE NOT NULL)\<close> and
  \<^verbatim>\<open>messages(id INTEGER PRIMARY KEY AUTOINCREMENT, subscriber_id INTEGER, message TEXT,
  created_at DATETIME DEFAULT CURRENT_TIMESTAMP)\<close>. A table is the list of its rows in
  insertion order; the \<open>_seq\<close> fields are the AUTOINCREMENT counters of
  \<^verbatim>\<open>sqlite_sequence\<close> (the largest rowid ever handed out).
\<close>

record subscriber =
  sub_id :: int
  sub_email :: string

record message_row =
  msg_id :: int
  msg_subscriber_id :: int
  msg_message :: string
  msg_created_at :: nat

record mail =
  mail_from :: string
  mail_to :: "string list"
  mail_data :: string

text \<open>
  Every call the handlers make to the database, the file system and the mail transport,
  in the order they make it (whether or not the call goes through).
\<close>

datatype call =
    ExecInsertSubscriber string
  | QuerySubscriberId string
  | ExecInsertMessage int string
  | QueryEmails
  | OpenFileAppend
  | WriteString string
  | ReadFile
  | SendMail "string list" string

record world =
  subscribers :: "subscriber list"
  subscribers_seq :: int
  messages :: "message_row list"
  messages_seq :: int
  audit_file :: "string option"
  outbox :: "mail list"
  server_log :: "string list"
  calls :: "call list"

text \<open>
  \<open>audit_file\<close> is the content of \<^verbatim>\<open>subscribers_emails.txt\<close>, \<open>None\<close> while the file
  does not exist. \<open>outbox\<close> holds the mails the transport accepted, \<open>server_log\<close> the
  lines given to \<^verbatim>\<open>log.Println\<close> (without the time stamp the logger puts in front).
\<close>

record env =
  exec_subscriber_err :: "string option"
  query_id_err :: "string option"
  exec_message_err :: "string option"
  query_emails_err :: "string option"
  scan_order :: "subscriber list \<Rightarrow> subscriber list"
  open_err :: "string option"
  write_err :: "(nat \<times> string) option"
  read_err :: "string option"
  smtp_err :: "string option"
  smtp_email :: string
  smtp_pass :: string
  now :: nat

text \<open>
  The \<open>_err\<close> fields are the error (its \<^verbatim>\<open>Error()\<close> text) the driver, the file system or the
  mail transport answers the corresponding call with, \<open>None\<close> when the call goes through.
  \<open>write_err\<close> is the number of bytes a failing write on the audit file gets out before its
  error, and that error; \<open>read_err\<close> is the error of a read of the audit file that fails
  although the file exists (permission denied, an I/O error).
  \<open>scan_order\<close> is the order in which a full scan of \<^verbatim>\<open>subscribers\<close> delivers the rows
  (SQLite leaves it open). \<open>smtp_email\<close> and \<open>smtp_pass\<close> are the values of the two
  \<^verbatim>\<open>os.Getenv\<close> lookups of sendConfirmationEmail, \<open>now\<close> is CURRENT_TIMESTAMP.
\<close>

subsection \<open>HTTP requests and responses\<close>

record request =
  req_method :: string
  req_path :: string
  req_form :: "(string \<times> string) list"

record response =
  status :: nat
  body :: string

definition MethodGet :: string where
  "MethodGet = ''GET''"

definition MethodPost :: string where
  "MethodPost = ''POST''"

definition StatusOK :: nat where
  "StatusOK = 200"

definition StatusBadRequest :: nat where
  "StatusBadRequest = 400"

definition StatusMethodNotAllowed :: nat where
  "StatusMethodNotAllowed = 405"

definition StatusInternalServerError :: nat where
  "StatusInternalServerError = 500"

definition nl :: string where
  "nl = [CHR 0x0A]"

text \<open>The marks U+2705 and U+274C of the source's messages, in UTF-8.\<close>

definition check_mark :: string where
  "check_mark = [CHR 0xE2, CHR 0x9C, CHR 0x85]"

definition cross_mark :: string where
  "cross_mark = [CHR 0xE2, CHR 0x9D, CHR 0x8C]"

text \<open>\<^verbatim>\<open>r.FormValue(key)\<close>: the first value of the key, the empty string when it is absent.\<close>

definition FormValue :: "request \<Rightarrow> string \<Rightarrow> string" where
  "FormValue r key = (case map_of (req_form r) key of None \<Rightarrow> [] | Some v \<Rightarrow> v)"

text \<open>\<^verbatim>\<open>http.Error(w, msg, code)\<close>: the status and the message followed by a newline.\<close>

definition http_Error :: "string \<Rightarrow> nat \<Rightarrow> response" where
  "http_Error msg code = \<lparr>status = code, body = msg @ nl\<rparr>"

subsection \<open>url.QueryEscape\<close>

definition is_alnum :: "char \<Rightarrow> bool" where
  "is_alnum c = (let n = (of_char c :: nat) in
     (0x61 \<le> n \<and> n \<le> 0x7A) \<or> (0x41 \<le> n \<and> n \<le> 0x5A) \<or> (0x30 \<le> n \<and> n \<le> 0x39))"

definition shouldEscape :: "char \<Rightarrow> bool" where
  "shouldEscape c = (\<not> (is_alnum c \<or> c = CHR ''-'' \<or> c = CHR ''_'' \<or> c = CHR ''.'' \<or> c = CHR ''~''))"

definition upperhex :: string where
  "upperhex = ''0123456789ABCDEF''"

fun QueryEscape :: "string \<Rightarrow> string" where
  "QueryEscape [] = []"
| "QueryEscape (c # cs) =
     (if shouldEscape c then
        (if c = CHR '' '' then ''+''
         else [CHR ''%'', upperhex ! ((of_char c :: nat) div 16), upperhex ! ((of_char c :: nat) mod 16)])
      else [c]) @ QueryEscape cs"

subsection \<open>The store: statements run through database/sql\<close>

text \<open>
  AUTOINCREMENT hands out one more than the largest rowid that ever existed in the table.
\<close>

definition next_rowid :: "int list \<Rightarrow> int \<Rightarrow> int" where
  "next_rowid ids seq = fold max ids seq + 1"

definition called :: "call \<Rightarrow> world \<Rightarrow> world" where
  "called c w = w\<lparr>calls := calls w @ [c]\<rparr>"

text \<open>
  \<^verbatim>\<open>INSERT OR IGNORE INTO subscribers(email) VALUES(?)\<close>: a row with this email makes the
  UNIQUE constraint ignore the insert; the rowid prepared for the row is used up all the
  same, so the AUTOINCREMENT counter moves on. A statement that fails changes no table.
\<close>

definition db_exec_insert_subscriber :: "env \<Rightarrow> string \<Rightarrow> world \<Rightarrow> string option \<times> world" where
  "db_exec_insert_subscriber ev email w =
     (let w0 = called (ExecInsertSubscriber email) w in
      case exec_subscriber_err ev of
        Some e \<Rightarrow> (Some e, w0)
      | None \<Rightarrow>
          let i = next_rowid (map sub_id (subscribers w)) (subscribers_seq w)
          in if email \<in> set (map sub_email (subscribers w))
             then (None, w0\<lparr>subscribers_seq := i\<rparr>)
             else (None, w0\<lparr>subscribers := subscribers w @ [\<lparr>sub_id = i, sub_email = email\<rparr>],
                           subscribers_seq := i\<rparr>))"

text \<open>
  \<^verbatim>\<open>db.QueryRow("SELECT id FROM subscribers WHERE email = ?", email).Scan(&id)\<close>: the
  first row found, \<^verbatim>\<open>sql.ErrNoRows\<close> when there is none.
\<close>

definition ErrNoRows :: string where
  "ErrNoRows = ''sql: no rows in result set''"

definition db_query_subscriber_id :: "env \<Rightarrow> string \<Rightarrow> world \<Rightarrow> (string + int) \<times> world" where
  "db_query_subscriber_id ev email w =
     (let w0 = called (QuerySubscriberId email) w in
      case query_id_err ev of
        Some e \<Rightarrow> (Inl e, w0)
      | None \<Rightarrow>
          (case find (\<lambda>s. sub_email s = email) (subscribers w) of
             None \<Rightarrow> (Inl ErrNoRows, w0)
           | Some s \<Rightarrow> (Inr (sub_id s), w0)))"

text \<open>
  \<^verbatim>\<open>INSERT INTO messages(subscriber_id, message) VALUES(?, ?)\<close>. The foreign key is
  declared but the statement does not depend on it: the id comes from the lookup.
\<close>

definition db_exec_insert_message :: "env \<Rightarrow> int \<Rightarrow> string \<Rightarrow> world \<Rightarrow> string option \<times> world" where
  "db_exec_insert_message ev sid message w =
     (let w0 = called (ExecInsertMessage sid message) w in
      case exec_message_err ev of
        Some e \<Rightarrow> (Some e, w0)
      | None \<Rightarrow>
          let i = next_rowid (map msg_id (messages w)) (messages_seq w)
          in (None, w0\<lparr>messages := messages w @
                          [\<lparr>msg_id = i, msg_subscriber_id = sid, msg_message = message,
                            msg_created_at = now ev\<rparr>],
                        messages_seq := i\<rparr>))"

text \<open>\<^verbatim>\<open>db.Query("SELECT email FROM subscribers")\<close>: every row once, in the scan's order.\<close>

definition db_query_emails :: "env \<Rightarrow> world \<Rightarrow> (string + string list) \<times> world" where
  "db_query_emails ev w =
     (let w0 = called QueryEmails w in
      case query_emails_err ev of
        Some e \<Rightarrow> (Inl e, w0)
      | None \<Rightarrow> (Inr (map sub_email (scan_order ev (subscribers w))), w0))"

subsection \<open>The audit file\<close>

definition file_content :: "string option \<Rightarrow> string" where
  "file_content f = (case f of None \<Rightarrow> [] | Some c \<Rightarrow> c)"

text \<open>
  \<^verbatim>\<open>os.OpenFile("subscribers_emails.txt", os.O_APPEND|os.O_CREATE|os.O_WRONLY, 0644)\<close>: a
  successful open creates the file when it is absent.
\<close>

definition os_OpenFile :: "env \<Rightarrow> world \<Rightarrow> string option \<times> world" where
  "os_OpenFile ev w =
     (let w0 = called OpenFileAppend w in
      case open_err ev of
        Some e \<Rightarrow> (Some e, w0)
      | None \<Rightarrow> (None, w0\<lparr>audit_file := Some (file_content (audit_file w))\<rparr>))"

text \<open>
  \<^verbatim>\<open>f.WriteString(s)\<close> on the file opened for append. A write that fails leaves the bytes
  it got out before the error in the file; the source drops the result (count and error),
  so only the file tells the two apart.
\<close>

definition f_WriteString :: "env \<Rightarrow> string \<Rightarrow> world \<Rightarrow> world" where
  "f_WriteString ev s w =
     (called (WriteString s) w)
       \<lparr>audit_file :=
          Some (file_content (audit_file w) @
                (case write_err ev of None \<Rightarrow> s | Some (n, e) \<Rightarrow> take n s))\<rparr>"

text \<open>
  \<^verbatim>\<open>os.ReadFile("subscribers_emails.txt")\<close>: fails when the file does not exist, and when
  the file exists but the environment lets the read fail.
\<close>

definition ErrNotExist :: string where
  "ErrNotExist = ''open subscribers_emails.txt: no such file or directory''"

definition os_ReadFile :: "env \<Rightarrow> world \<Rightarrow> (string + string) \<times> world" where
  "os_ReadFile ev w =
     (let w0 = called ReadFile w in
      case audit_file w of
        None \<Rightarrow> (Inl ErrNotExist, w0)
      | Some c \<Rightarrow> (case read_err ev of Some e \<Rightarrow> (Inl e, w0) | None \<Rightarrow> (Inr c, w0)))"

subsection \<open>The notifier\<close>

definition log_Println :: "string \<Rightarrow> world \<Rightarrow> world" where
  "log_Println line w = w\<lparr>server_log := server_log w @ [line]\<rparr>"

text \<open>
  \<^verbatim>\<open>smtp.SendMail(addr, auth, from, to, msg)\<close> with the \<^verbatim>\<open>smtp.PlainAuth\<close> credentials (user
  name and password): the transport accepts the mail or answers with an error.
\<close>

definition smtp_SendMail ::
  "env \<Rightarrow> string \<times> string \<Rightarrow> string \<Rightarrow> string list \<Rightarrow> string \<Rightarrow> world \<Rightarrow> string option \<times> world" where
  "smtp_SendMail ev auth sender rcpts msg w =
     (let w0 = called (SendMail rcpts msg) w in
      case smtp_err ev of
        Some e \<Rightarrow> (Some e, w0)
      | None \<Rightarrow> (None, w0\<lparr>outbox := outbox w @
                           [\<lparr>mail_from = sender, mail_to = rcpts, mail_data = msg\<rparr>]\<rparr>))"

definition sendConfirmationEmail :: "env \<Rightarrow> string \<Rightarrow> string \<Rightarrow> world \<Rightarrow> world" where
  "sendConfirmationEmail ev to link w =
     (let sender = smtp_email ev;
          password = smtp_pass ev;
          subject = ''Please verify your email'';
          mbody = ''Click the link to confirm:'' @ nl @ link;
          msg = ''From: '' @ sender @ nl @ ''To: '' @ to @ nl @ ''Subject: '' @ subject @ nl @ nl @ mbody
      in case smtp_SendMail ev (sender, password) sender [to] msg w of
           (Some e, w1) \<Rightarrow> log_Println (cross_mark @ '' Email send failed: '' @ e) w1
         | (None, w1) \<Rightarrow> log_Println (check_mark @ '' Email sent to: '' @ to) w1)"

section \<open>The handlers\<close>

definition handleEmailSubscription :: "env \<Rightarrow> request \<Rightarrow> world \<Rightarrow> response \<times> world" where
  "handleEmailSubscription ev r w =
     (if req_method r \<noteq> MethodPost then (http_Error ''Invalid method'' StatusMethodNotAllowed, w)
      else
        let email = FormValue r ''email'';
            message = FormValue r ''message''
        in
          if email = [] \<or> message = [] then
            (http_Error ''Email and message are required'' StatusBadRequest, w)
          else
            (case db_exec_insert_subscriber ev email w of
               (Some err, w1) \<Rightarrow>
                 (http_Error (cross_mark @ '' Could not save email: '' @ err) StatusInternalServerError, w1)
             | (None, w1) \<Rightarrow>
                 (case db_query_subscriber_id ev email w1 of
                    (Inl err, w2) \<Rightarrow>
                      (http_Error (cross_mark @ '' Could not fetch ID: '' @ err) StatusInternalServerError, w2)
                  | (Inr sid, w2) \<Rightarrow>
                      (case db_exec_insert_message ev sid message w2 of
                         (Some err, w3) \<Rightarrow>
                           (http_Error (cross_mark @ '' Could not save message: '' @ err)
                              StatusInternalServerError, w3)
                       | (None, w3) \<Rightarrow>
                           let w4 = (case os_OpenFile ev w3 of
                                       (None, wo) \<Rightarrow> f_WriteString ev (email @ nl) wo
                                     | (Some err, wo) \<Rightarrow> wo);
                               link = ''http://localhost:8080/verify?email='' @ QueryEscape email;
                               w5 = sendConfirmationEmail ev email link w4
                           in (\<lparr>status = StatusOK,
                                body = check_mark @ '' Thanks '' @ email @ ''! Confirmation sent.''\<rparr>,
                               w5)))))"

text \<open>The \<^verbatim>\<open>for rows.Next()\<close> loop: one \<^verbatim>\<open>fmt.Fprintln(w, email)\<close> per row.\<close>

fun Fprintln_rows :: "string list \<Rightarrow> string \<Rightarrow> string" where
  "Fprintln_rows [] out = out"
| "Fprintln_rows (email # rest) out = Fprintln_rows rest (out @ email @ nl)"

text \<open>handleListSubscribers never looks at the request.\<close>

definition handleListSubscribers :: "env \<Rightarrow> request \<Rightarrow> world \<Rightarrow> response \<times> world" where
  "handleListSubscribers ev r w =
     (case db_query_emails ev w of
        (Inl err, w1) \<Rightarrow> (http_Error ''Failed to fetch subscribers'' StatusInternalServerError, w1)
      | (Inr rows, w1) \<Rightarrow> (\<lparr>status = StatusOK, body = Fprintln_rows rows []\<rparr>, w1))"

definition handleViewEmails :: "env \<Rightarrow> request \<Rightarrow> world \<Rightarrow> response \<times> world" where
  "handleViewEmails ev r w =
     (case os_ReadFile ev w of
        (Inl err, w1) \<Rightarrow> (http_Error (cross_mark @ '' Cannot read file'') StatusInternalServerError, w1)
      | (Inr data, w1) \<Rightarrow> (\<lparr>status = StatusOK, body = data\<rparr>, w1))"

text \<open>
  The three routes of \<^verbatim>\<open>main\<close> that reach these handlers; \<^verbatim>\<open>http.HandleFunc\<close> registers a
  path for every method. The other routes (pages, OAuth) are not modelled: \<open>None\<close>.
\<close>

definition ServeMux :: "env \<Rightarrow> request \<Rightarrow> world \<Rightarrow> (response \<times> world) option" where
  "ServeMux ev r w =
     (if req_path r = ''/subscribe/email'' then Some (handleEmailSubscription ev r w)
      else if req_path r = ''/subscribers'' then Some (handleListSubscribers ev r w)
      else if req_path r = ''/view-emails'' then Some (handleViewEmails ev r w)
      else None)"

subsection \<open>A client sending submissions one after the other\<close>

fun submit_all :: "(env \<times> request) list \<Rightarrow> world \<Rightarrow> response list \<times> world" where
  "submit_all [] w = ([], w)"
| "submit_all ((ev, r) # rest) w =
     (case handleEmailSubscription ev r w of
        (resp, w1) \<Rightarrow> (case submit_all rest w1 of (resps, w2) \<Rightarrow> (resp # resps, w2)))"

section \<open>Vocabulary of the properties\<close>

text \<open>
  A submission is valid when it is a POST carrying a non-empty email and a non-empty
  message. The store goes through when none of the three statements of the pipeline is
  answered with an error.
\<close>

definition valid_submission :: "request \<Rightarrow> bool" where
  "valid_submission r =
     (req_method r = MethodPost \<and> FormValue r ''email'' \<noteq> [] \<and> FormValue r ''message'' \<noteq> [])"

definition store_ok :: "env \<Rightarrow> bool" where
  "store_ok ev =
     (exec_subscriber_err ev = None \<and> query_id_err ev = None \<and> exec_message_err ev = None)"

text \<open>The driver error of the first of Steps 1 to 3 that the environment lets fail.\<close>

definition first_store_err :: "env \<Rightarrow> string option" where
  "first_store_err ev =
     (case exec_subscriber_err ev of
        Some e \<Rightarrow> Some e
      | None \<Rightarrow> (case query_id_err ev of Some e \<Rightarrow> Some e | None \<Rightarrow> exec_message_err ev))"

text \<open>The success acknowledgment a caller expects for an email.\<close>

definition acknowledgment :: "string \<Rightarrow> response" where
  "acknowledgment email =
     \<lparr>status = 200, body = check_mark @ '' Thanks '' @ email @ ''! Confirmation sent.''\<rparr>"

text \<open>
  The id Step 2 reads back for an email, seen from the store before Step 1: the id of the
  row already there, or the id Step 1 is about to hand out.
\<close>

definition resolved_id :: "string \<Rightarrow> world \<Rightarrow> int" where
  "resolved_id email w =
     (case find (\<lambda>s. sub_email s = email) (subscribers w) of
        Some s \<Rightarrow> sub_id s
      | None \<Rightarrow> next_rowid (map sub_id (subscribers w)) (subscribers_seq w))"

text \<open>The Subscriber rows of an email, and the Message rows referencing an id.\<close>

definition subscriber_rows :: "string \<Rightarrow> world \<Rightarrow> subscriber list" where
  "subscriber_rows email w = filter (\<lambda>s. sub_email s = email) (subscribers w)"

definition message_rows :: "int \<Rightarrow> world \<Rightarrow> message_row list" where
  "message_rows sid w = filter (\<lambda>m. msg_subscriber_id m = sid) (messages w)"

text \<open>Calls to the store, as opposed to calls to the audit file and to the mail transport.\<close>

fun is_store_call :: "call \<Rightarrow> bool" where
  "is_store_call (ExecInsertSubscriber email) = True"
| "is_store_call (QuerySubscriberId email) = True"
| "is_store_call (ExecInsertMessage sid message) = True"
| "is_store_call QueryEmails = True"
| "is_store_call OpenFileAppend = False"
| "is_store_call (WriteString s) = False"
| "is_store_call ReadFile = False"
| "is_store_call (SendMail to msg) = False"

text \<open>The calls made between two states of the world.\<close>

definition new_calls :: "world \<Rightarrow> world \<Rightarrow> call list" where
  "new_calls w w' = drop (length (calls w)) (calls w')"

text \<open>
  The lines of a text: each newline ends a line, and bytes after the last newline are a
  last line.
\<close>

fun lines_of :: "string \<Rightarrow> string list" where
  "lines_of [] = []"
| "lines_of (c # cs) =
     (if c = CHR 0x0A then [] # lines_of cs
      else (case lines_of cs of [] \<Rightarrow> [[c]] | l # ls \<Rightarrow> (c # l) # ls))"

definition submitted_emails :: "(env \<times> request) list \<Rightarrow> string list" where
  "submitted_emails subs = map (\<lambda>p. FormValue (snd p) ''email'') subs"

subsection \<open>Concrete inputs\<close>

definition empty_world :: world where
  "empty_world =
     \<lparr>subscribers = [], subscribers_seq = 0, messages = [], messages_seq = 0,
      audit_file = None, outbox = [], server_log = [], calls = []\<rparr>"

definition quiet_env :: env where
  "quiet_env =
     \<lparr>exec_subscriber_err = None, query_id_err = None, exec_message_err = None,
      query_emails_err = None, scan_order = (\<lambda>rows. rows), open_err = None, write_err = None,
      read_err = None, smtp_err = None,
      smtp_email = ''noreply@example.com'', smtp_pass = ''secret'', now = 0\<rparr>"

definition post_subscription :: "string \<Rightarrow> string \<Rightarrow> request" where
  "post_subscription email message =
     \<lparr>req_method = MethodPost, req_path = ''/subscribe/email'',
      req_form = [(''email'', email), (''message'', message)]\<rparr>"

definition request_to :: "string \<Rightarrow> string \<Rightarrow> request" where
  "request_to method path = \<lparr>req_method = method, req_path = path, req_form = []\<rparr>"

text \<open>Environments in which exactly one collaborator fails.\<close>

definition locked_env :: env where
  "locked_env = quiet_env\<lparr>query_id_err := Some ''database is locked''\<rparr>"

definition full_env :: env where
  "full_env = quiet_env\<lparr>exec_message_err := Some ''database or disk is full''\<rparr>"

definition readonly_env :: env where
  "readonly_env = quiet_env\<lparr>open_err := Some ''open subscribers_emails.txt: read-only file system''\<rparr>"

definition disk_full_env :: env where
  "disk_full_env =
     quiet_env\<lparr>write_err := Some (0, ''write subscribers_emails.txt: no space left on device'')\<rparr>"

definition unreadable_env :: env where
  "unreadable_env = quiet_env\<lparr>read_err := Some ''open subscribers_emails.txt: permission denied''\<rparr>"

definition offline_env :: env where
  "offline_env = quiet_env\<lparr>smtp_err := Some ''dial tcp: i/o timeout''\<rparr>"

section \<open>Facts about the collaborators\<close>

lemma fold_max_ge: "seq \<le> fold max ids (seq::int)"
  by (induction ids arbitrary: seq) (auto intro: order_trans [OF max.cobounded2])

lemma fold_max_mem: "i \<in> set ids \<Longrightarrow> i \<le> fold max ids (seq::int)"
proof (induction ids arbitrary: seq)
  case Nil
  then show ?case by simp
next
  case (Cons a ids)
  show ?case
  proof (cases "i = a")
    case True
    have "a \<le> max a seq" by simp
    also have "\<dots> \<le> fold max ids (max a seq)" by (rule fold_max_ge)
    finally show ?thesis using True by simp
  next
    case False
    with Cons show ?thesis by simp
  qed
qed

lemma next_rowid_fresh: "next_rowid ids seq \<notin> set ids"
  using fold_max_mem [of "next_rowid ids seq" ids seq] by (auto simp: next_rowid_def)

lemma find_app:
  "find P (xs @ ys) = (case find P xs of None \<Rightarrow> find P ys | Some x \<Rightarrow> Some x)"
  by (induction xs) auto

lemma find_present:
  "email \<in> set (map sub_email rows) \<Longrightarrow>
     \<exists>s. find (\<lambda>s. sub_email s = email) rows = Some s \<and> sub_email s = email \<and> s \<in> set rows"
  by (induction rows) auto

lemma called_fields:
  "subscribers (called c w) = subscribers w"
  "subscribers_seq (called c w) = subscribers_seq w"
  "messages (called c w) = messages w"
  "messages_seq (called c w) = messages_seq w"
  "audit_file (called c w) = audit_file w"
  "outbox (called c w) = outbox w"
  "server_log (called c w) = server_log w"
  "calls (called c w) = calls w @ [c]"
  by (simp_all add: called_def)

lemma exec_subscriber_fst: "fst (db_exec_insert_subscriber ev email w) = exec_subscriber_err ev"
  by (simp add: db_exec_insert_subscriber_def Let_def split: option.split)

lemma exec_subscriber_fields:
  "subscribers (snd (db_exec_insert_subscriber ev email w)) =
     (if exec_subscriber_err ev = None \<and> email \<notin> set (map sub_email (subscribers w))
      then subscribers w @ [\<lparr>sub_id = next_rowid (map sub_id (subscribers w)) (subscribers_seq w),
                              sub_email = email\<rparr>]
      else subscribers w)"
  "messages (snd (db_exec_insert_subscriber ev email w)) = messages w"
  "messages_seq (snd (db_exec_insert_subscriber ev email w)) = messages_seq w"
  "audit_file (snd (db_exec_insert_subscriber ev email w)) = audit_file w"
  "outbox (snd (db_exec_insert_subscriber ev email w)) = outbox w"
  "server_log (snd (db_exec_insert_subscriber ev email w)) = server_log w"
  "calls (snd (db_exec_insert_subscriber ev email w)) = calls w @ [ExecInsertSubscriber email]"
  by (simp_all add: db_exec_insert_subscriber_def Let_def called_fields split: option.split)

lemma query_id_fst:
  "fst (db_query_subscriber_id ev email w) =
     (case query_id_err ev of
        Some e \<Rightarrow> Inl e
      | None \<Rightarrow> (case find (\<lambda>s. sub_email s = email) (subscribers w) of
                   None \<Rightarrow> Inl ErrNoRows
                 | Some s \<Rightarrow> Inr (sub_id s)))"
  by (simp add: db_query_subscriber_id_def Let_def split: option.split)

lemma query_id_snd: "snd (db_query_subscriber_id ev email w) = called (QuerySubscriberId email) w"
  by (simp add: db_query_subscriber_id_def Let_def split: option.split)

lemma exec_message_fst: "fst (db_exec_insert_message ev sid m w) = exec_message_err ev"
  by (simp add: db_exec_insert_message_def Let_def split: option.split)

lemma exec_message_fields:
  "subscribers (snd (db_exec_insert_message ev sid m w)) = subscribers w"
  "subscribers_seq (snd (db_exec_insert_message ev sid m w)) = subscribers_seq w"
  "messages (snd (db_exec_insert_message ev sid m w)) =
     (if exec_message_err ev = None
      then messages w @ [\<lparr>msg_id = next_rowid (map msg_id (messages w)) (messages_seq w),
                           msg_subscriber_id = sid, msg_message = m, msg_created_at = now ev\<rparr>]
      else messages w)"
  "audit_file (snd (db_exec_insert_message ev sid m w)) = audit_file w"
  "outbox (snd (db_exec_insert_message ev sid m w)) = outbox w"
  "server_log (snd (db_exec_insert_message ev sid m w)) = server_log w"
  "calls (snd (db_exec_insert_message ev sid m w)) = calls w @ [ExecInsertMessage sid m]"
  by (simp_all add: db_exec_insert_message_def Let_def called_fields split: option.split)

lemma OpenFile_fst: "fst (os_OpenFile ev w) = open_err ev"
  by (simp add: os_OpenFile_def Let_def split: option.split)

lemma OpenFile_fields:
  "subscribers (snd (os_OpenFile ev w)) = subscribers w"
  "subscribers_seq (snd (os_OpenFile ev w)) = subscribers_seq w"
  "messages (snd (os_OpenFile ev w)) = messages w"
  "messages_seq (snd (os_OpenFile ev w)) = messages_seq w"
  "audit_file (snd (os_OpenFile ev w)) =
     (if open_err ev = None then Some (file_content (audit_file w)) else audit_file w)"
  "outbox (snd (os_OpenFile ev w)) = outbox w"
  "server_log (snd (os_OpenFile ev w)) = server_log w"
  "calls (snd (os_OpenFile ev w)) = calls w @ [OpenFileAppend]"
  by (simp_all add: os_OpenFile_def Let_def called_fields split: option.split)

lemma WriteString_fields:
  "subscribers (f_WriteString ev s w) = subscribers w"
  "subscribers_seq (f_WriteString ev s w) = subscribers_seq w"
  "messages (f_WriteString ev s w) = messages w"
  "messages_seq (f_WriteString ev s w) = messages_seq w"
  "audit_file (f_WriteString ev s w) =
     Some (file_content (audit_file w) @
           (case write_err ev of None \<Rightarrow> s | Some (n, e) \<Rightarrow> take n s))"
  "outbox (f_WriteString ev s w) = outbox w"
  "server_log (f_WriteString ev s w) = server_log w"
  "calls (f_WriteString ev s w) = calls w @ [WriteString s]"
  by (simp_all add: f_WriteString_def called_fields)

lemma sendConfirmationEmail_fields:
  "subscribers (sendConfirmationEmail ev to link w) = subscribers w"
  "subscribers_seq (sendConfirmationEmail ev to link w) = subscribers_seq w"
  "messages (sendConfirmationEmail ev to link w) = messages w"
  "messages_seq (sendConfirmationEmail ev to link w) = messages_seq w"
  "audit_file (sendConfirmationEmail ev to link w) = audit_file w"
  by (simp_all add: sendConfirmationEmail_def smtp_SendMail_def log_Println_def Let_def called_def
        split: option.split)

lemma sendConfirmationEmail_failed:
  "smtp_err ev = Some e \<Longrightarrow> outbox (sendConfirmationEmail ev to link w) = outbox w"
  "smtp_err ev = Some e \<Longrightarrow>
     server_log (sendConfirmationEmail ev to link w) =
       server_log w @ [cross_mark @ '' Email send failed: '' @ e]"
  by (simp_all add: sendConfirmationEmail_def smtp_SendMail_def log_Println_def Let_def called_def)

lemma find_after_insert:
  assumes "exec_subscriber_err ev = None"
  shows "find (\<lambda>s. sub_email s = email) (subscribers (snd (db_exec_insert_subscriber ev email w))) =
     (if email \<in> set (map sub_email (subscribers w))
      then find (\<lambda>s. sub_email s = email) (subscribers w)
      else Some \<lparr>sub_id = next_rowid (map sub_id (subscribers w)) (subscribers_seq w),
                 sub_email = email\<rparr>)"
proof (cases "email \<in> set (map sub_email (subscribers w))")
  case True
  then show ?thesis by (simp add: exec_subscriber_fields)
next
  case False
  then have "find (\<lambda>s. sub_email s = email) (subscribers w) = None"
    by (auto simp: find_None_iff)
  with False assms show ?thesis
    by (simp add: exec_subscriber_fields find_app)
qed

lemma query_after_insert:
  assumes "exec_subscriber_err ev = None" "query_id_err ev = None"
  shows "fst (db_query_subscriber_id ev email (snd (db_exec_insert_subscriber ev email w))) =
           Inr (resolved_id email w)"
proof (cases "email \<in> set (map sub_email (subscribers w))")
  case True
  from find_present [OF True]
  obtain s where "find (\<lambda>s. sub_email s = email) (subscribers w) = Some s"
    by blast
  with True assms show ?thesis
    by (simp add: query_id_fst find_after_insert resolved_id_def)
next
  case False
  then have "find (\<lambda>s. sub_email s = email) (subscribers w) = None"
    by (auto simp: find_None_iff)
  with False assms show ?thesis
    by (simp add: query_id_fst find_after_insert resolved_id_def)
qed

section \<open>The submission pipeline, path by path\<close>

lemmas handler_simps = handleEmailSubscription_def Let_def case_prod_beta
  exec_subscriber_fst exec_message_fst OpenFile_fst query_id_snd

lemmas world_field_simps = sendConfirmationEmail_fields WriteString_fields OpenFile_fields
  exec_message_fields called_fields exec_subscriber_fields

lemma success_response:
  assumes "valid_submission r" "store_ok ev"
  shows "fst (handleEmailSubscription ev r w) = acknowledgment (FormValue r ''email'')"
  using assms
  by (simp add: handler_simps valid_submission_def store_ok_def acknowledgment_def StatusOK_def
      query_after_insert split: option.split)

lemma success_subscribers:
  assumes "valid_submission r" "store_ok ev"
  shows "subscribers (snd (handleEmailSubscription ev r w)) =
     (if FormValue r ''email'' \<in> set (map sub_email (subscribers w)) then subscribers w
      else subscribers w @ [\<lparr>sub_id = next_rowid (map sub_id (subscribers w)) (subscribers_seq w),
                              sub_email = FormValue r ''email''\<rparr>])"
  using assms
  by (simp add: handler_simps valid_submission_def store_ok_def query_after_insert world_field_simps
      split: option.split)

lemma success_messages:
  assumes "valid_submission r" "store_ok ev"
  shows "messages (snd (handleEmailSubscription ev r w)) =
       messages w @ [\<lparr>msg_id = next_rowid (map msg_id (messages w)) (messages_seq w),
                      msg_subscriber_id = resolved_id (FormValue r ''email'') w,
                      msg_message = FormValue r ''message'',
                      msg_created_at = now ev\<rparr>]"
  using assms
  by (simp add: handler_simps valid_submission_def store_ok_def query_after_insert world_field_simps
      split: option.split)

lemma success_audit:
  assumes "valid_submission r" "store_ok ev"
  shows "audit_file (snd (handleEmailSubscription ev r w)) =
     (if open_err ev = None
      then Some (file_content (audit_file w) @
                 (case write_err ev of
                    None \<Rightarrow> FormValue r ''email'' @ nl
                  | Some (n, e) \<Rightarrow> take n (FormValue r ''email'' @ nl)))
      else audit_file w)"
  using assms
  by (simp add: handler_simps valid_submission_def store_ok_def query_after_insert world_field_simps
      file_content_def split: option.split)

lemma failure_cases:
  assumes "\<not> store_ok ev"
  obtains (step1) e where "exec_subscriber_err ev = Some e" "first_store_err ev = Some e"
  | (step2) e where "exec_subscriber_err ev = None" "query_id_err ev = Some e" "first_store_err ev = Some e"
  | (step3) e where "exec_subscriber_err ev = None" "query_id_err ev = None"
      "exec_message_err ev = Some e" "first_store_err ev = Some e"
proof (cases "exec_subscriber_err ev")
  case (Some e)
  then show thesis by (intro step1 [of e]) (simp_all add: first_store_err_def)
next
  case n1: None
  show thesis
  proof (cases "query_id_err ev")
    case (Some e)
    with n1 show thesis by (intro step2 [of e]) (simp_all add: first_store_err_def)
  next
    case n2: None
    with n1 assms obtain e where "exec_message_err ev = Some e"
      by (auto simp: store_ok_def)
    with n1 n2 show thesis by (intro step3 [of e]) (simp_all add: first_store_err_def)
  qed
qed

lemma step1_failure:
  assumes "valid_submission r" "exec_subscriber_err ev = Some e"
  shows "handleEmailSubscription ev r w =
     (http_Error (cross_mark @ '' Could not save email: '' @ e) StatusInternalServerError,
      called (ExecInsertSubscriber (FormValue r ''email'')) w)"
  using assms
  by (simp add: handleEmailSubscription_def Let_def valid_submission_def
      db_exec_insert_subscriber_def)

lemma step2_failure:
  assumes "valid_submission r" "exec_subscriber_err ev = None" "query_id_err ev = Some e"
  shows "handleEmailSubscription ev r w =
     (http_Error (cross_mark @ '' Could not fetch ID: '' @ e) StatusInternalServerError,
      called (QuerySubscriberId (FormValue r ''email''))
        (snd (db_exec_insert_subscriber ev (FormValue r ''email'') w)))"
  using assms
  by (simp add: handler_simps valid_submission_def query_id_fst)

lemma step3_failure:
  assumes "valid_submission r" "exec_subscriber_err ev = None" "query_id_err ev = None"
    "exec_message_err ev = Some e"
  shows "handleEmailSubscription ev r w =
     (http_Error (cross_mark @ '' Could not save message: '' @ e) StatusInternalServerError,
      snd (db_exec_insert_message ev (resolved_id (FormValue r ''email'') w) (FormValue r ''message'')
        (called (QuerySubscriberId (FormValue r ''email''))
          (snd (db_exec_insert_subscriber ev (FormValue r ''email'') w)))))"
  using assms
  by (simp add: handler_simps valid_submission_def query_after_insert)

lemma failure_status:
  assumes "valid_submission r" "\<not> store_ok ev"
  shows "status (fst (handleEmailSubscription ev r w)) = 500"
  using assms(2)
  by (cases rule: failure_cases)
     (simp_all add: step1_failure step2_failure step3_failure assms(1) http_Error_def
        StatusInternalServerError_def)

lemma failure_body:
  assumes "valid_submission r" "\<not> store_ok ev"
  shows "\<exists>e pre. first_store_err ev = Some e \<and> body (fst (handleEmailSubscription ev r w)) = pre @ e @ nl"
  using assms(2)
proof (cases rule: failure_cases)
  case (step1 e)
  then have "body (fst (handleEmailSubscription ev r w)) = (cross_mark @ '' Could not save email: '') @ e @ nl"
    by (simp add: step1_failure assms(1) http_Error_def)
  with step1 show ?thesis by blast
next
  case (step2 e)
  then have "body (fst (handleEmailSubscription ev r w)) = (cross_mark @ '' Could not fetch ID: '') @ e @ nl"
    by (simp add: step2_failure assms(1) http_Error_def)
  with step2 show ?thesis by blast
next
  case (step3 e)
  then have "body (fst (handleEmailSubscription ev r w)) = (cross_mark @ '' Could not save message: '') @ e @ nl"
    by (simp add: step3_failure assms(1) http_Error_def)
  with step3 show ?thesis by blast
qed

lemma failure_world:
  assumes "valid_submission r" "\<not> store_ok ev"
  shows "messages (snd (handleEmailSubscription ev r w)) = messages w"
    and "audit_file (snd (handleEmailSubscription ev r w)) = audit_file w"
    and "outbox (snd (handleEmailSubscription ev r w)) = outbox w"
    and "server_log (snd (handleEmailSubscription ev r w)) = server_log w"
    and "list_all is_store_call (new_calls w (snd (handleEmailSubscription ev r w)))"
  using assms(2)
  by (cases rule: failure_cases;
      simp add: step1_failure step2_failure step3_failure assms(1) world_field_simps new_calls_def)+

section \<open>Validation\<close>

text \<open>
  C2. A submission (a POST) whose email or message form value is empty is answered with
  status 400, and the handler returns the world as it found it: no table changes, the
  audit file and the outbox are untouched, nothing is logged, and the trace of calls to
  the store, the file system and the mail transport gets no entry.
\<close>

theorem C2_empty_field_rejected_without_effects:
  assumes "req_method r = MethodPost"
    and "FormValue r ''email'' = [] \<or> FormValue r ''message'' = []"
  shows "status (fst (handleEmailSubscription ev r w)) = 400 \<and>
         body (fst (handleEmailSubscription ev r w)) = ''Email and message are required'' @ nl \<and>
         snd (handleEmailSubscription ev r w) = w"
  using assms
  by (auto simp: handleEmailSubscription_def Let_def http_Error_def StatusBadRequest_def)

theorem C2_empty_field_rejected_witness:
  "req_method (post_subscription [] ''hello'') = MethodPost \<and>
   FormValue (post_subscription [] ''hello'') ''email'' = [] \<and>
   status (fst (handleEmailSubscription quiet_env (post_subscription [] ''hello'') empty_world)) = 400 \<and>
   snd (handleEmailSubscription quiet_env (post_subscription [] ''hello'') empty_world) = empty_world"
  using C2_empty_field_rejected_without_effects
          [of "post_subscription [] ''hello''" quiet_env empty_world]
  by (simp add: post_subscription_def FormValue_def)

section \<open>Store errors\<close>

text \<open>
  C3. When the environment lets one of the three statements of a valid submission fail,
  the caller gets status 500 with a body that contains the error of the first failing
  statement; no Message row is inserted; the audit file, the outbox and the server log
  stay as they were, and every call the handler made went to the store: neither the file
  open or write of Step 4 nor the mail of Step 5 was attempted.
\<close>

theorem C3_store_error_fails_fast:
  assumes "valid_submission r"
    and "\<not> store_ok ev"
    and "handleEmailSubscription ev r w = (resp, w')"
  shows "status resp = 500 \<and>
         (\<exists>e pre. first_store_err ev = Some e \<and> body resp = pre @ e @ nl) \<and>
         messages w' = messages w \<and>
         audit_file w' = audit_file w \<and>
         outbox w' = outbox w \<and>
         server_log w' = server_log w \<and>
         list_all is_store_call (new_calls w w')"
proof -
  have resp: "resp = fst (handleEmailSubscription ev r w)"
    and w': "w' = snd (handleEmailSubscription ev r w)"
    using assms(3) by simp_all
  show ?thesis
    unfolding resp w'
    using failure_status [OF assms(1,2)] failure_body [OF assms(1,2)] failure_world [OF assms(1,2)]
    by blast
qed

theorem C3_store_error_witness:
  "valid_submission (post_subscription ''a@example.com'' ''hello'') \<and>
   \<not> store_ok locked_env \<and>
   status (fst (handleEmailSubscription locked_env (post_subscription ''a@example.com'' ''hello'') empty_world)) = 500 \<and>
   (\<exists>e pre. first_store_err locked_env = Some e \<and>
      body (fst (handleEmailSubscription locked_env (post_subscription ''a@example.com'' ''hello'') empty_world)) =
        pre @ e @ nl) \<and>
   messages (snd (handleEmailSubscription locked_env (post_subscription ''a@example.com'' ''hello'') empty_world)) = [] \<and>
   audit_file (snd (handleEmailSubscription locked_env (post_subscription ''a@example.com'' ''hello'') empty_world)) = None \<and>
   outbox (snd (handleEmailSubscription locked_env (post_subscription ''a@example.com'' ''hello'') empty_world)) = []"
proof -
  have v: "valid_submission (post_subscription ''a@example.com'' ''hello'')"
    by (simp add: valid_submission_def post_subscription_def FormValue_def)
  have f: "\<not> store_ok locked_env"
    by (simp add: store_ok_def locked_env_def quiet_env_def)
  from C3_store_error_fails_fast [OF v f, of empty_world
      "fst (handleEmailSubscription locked_env (post_subscription ''a@example.com'' ''hello'') empty_world)"
      "snd (handleEmailSubscription locked_env (post_subscription ''a@example.com'' ''hello'') empty_world)"]
  show ?thesis using v f by (simp add: empty_world_def)
qed

text \<open>
  C4. When Step 3 fails after Steps 1 and 2 went through, the caller gets status 500 with
  the message-insert error, and what Step 1 did stays: the subscribers table holds a row
  for the submitted email (the row appended by Step 1 when the email was new), while the
  messages table is as before, so this submission leaves the row without a message.
\<close>

theorem C4_message_failure_keeps_subscriber:
  assumes "valid_submission r"
    and "exec_subscriber_err ev = None"
    and "query_id_err ev = None"
    and "exec_message_err ev = Some e"
    and "handleEmailSubscription ev r w = (resp, w')"
  shows "status resp = 500 \<and>
         body resp = cross_mark @ '' Could not save message: '' @ e @ nl \<and>
         subscriber_rows (FormValue r ''email'') w' \<noteq> [] \<and>
         subscribers w' =
           (if FormValue r ''email'' \<in> set (map sub_email (subscribers w)) then subscribers w
            else subscribers w @
                   [\<lparr>sub_id = next_rowid (map sub_id (subscribers w)) (subscribers_seq w),
                     sub_email = FormValue r ''email''\<rparr>]) \<and>
         messages w' = messages w"
proof -
  let ?email = "FormValue r ''email''"
  have eq: "(resp, w') =
     (http_Error (cross_mark @ '' Could not save message: '' @ e) StatusInternalServerError,
      snd (db_exec_insert_message ev (resolved_id ?email w) (FormValue r ''message'')
        (called (QuerySubscriberId ?email) (snd (db_exec_insert_subscriber ev ?email w)))))"
    using step3_failure [OF assms(1-4), of w] assms(5) by simp
  have subs: "subscribers w' =
           (if ?email \<in> set (map sub_email (subscribers w)) then subscribers w
            else subscribers w @
                   [\<lparr>sub_id = next_rowid (map sub_id (subscribers w)) (subscribers_seq w),
                     sub_email = ?email\<rparr>])"
    using eq assms(2) by (simp add: world_field_simps)
  have "?email \<in> set (map sub_email (subscribers w'))"
    unfolding subs by simp
  then have rows: "subscriber_rows ?email w' \<noteq> []"
    by (auto simp: subscriber_rows_def filter_empty_conv)
  have "messages w' = messages w"
    using eq assms(4) by (simp add: world_field_simps)
  moreover have "status resp = 500" "body resp = cross_mark @ '' Could not save message: '' @ e @ nl"
    using eq by (simp_all add: http_Error_def StatusInternalServerError_def)
  ultimately show ?thesis using subs rows by blast
qed

theorem C4_message_failure_witness:
  "valid_submission (post_subscription ''a@example.com'' ''hello'') \<and>
   exec_subscriber_err full_env = None \<and> query_id_err full_env = None \<and>
   exec_message_err full_env = Some ''database or disk is full'' \<and>
   status (fst (handleEmailSubscription full_env (post_subscription ''a@example.com'' ''hello'') empty_world)) = 500 \<and>
   subscribers (snd (handleEmailSubscription full_env (post_subscription ''a@example.com'' ''hello'') empty_world)) =
     [\<lparr>sub_id = 1, sub_email = ''a@example.com''\<rparr>] \<and>
   messages (snd (handleEmailSubscription full_env (post_subscription ''a@example.com'' ''hello'') empty_world)) = []"
proof -
  have v: "valid_submission (post_subscription ''a@example.com'' ''hello'')"
    by (simp add: valid_submission_def post_subscription_def FormValue_def)
  have e: "exec_subscriber_err full_env = None" "query_id_err full_env = None"
    "exec_message_err full_env = Some ''database or disk is full''"
    by (simp_all add: full_env_def quiet_env_def)
  from C4_message_failure_keeps_subscriber [OF v e, of empty_world
      "fst (handleEmailSubscription full_env (post_subscription ''a@example.com'' ''hello'') empty_world)"
      "snd (handleEmailSubscription full_env (post_subscription ''a@example.com'' ''hello'') empty_world)"]
  show ?thesis using v e
    by (simp add: empty_world_def post_subscription_def FormValue_def next_rowid_def)
qed

section \<open>Best-effort steps\<close>

lemma FormValue_post:
  "FormValue (post_subscription email message) ''email'' = email"
  "FormValue (post_subscription email message) ''message'' = message"
  by (simp_all add: post_subscription_def FormValue_def)

lemma success_notifier_failed:
  assumes "valid_submission r" "store_ok ev" "smtp_err ev = Some e"
  shows "outbox (snd (handleEmailSubscription ev r w)) = outbox w"
    and "server_log (snd (handleEmailSubscription ev r w)) =
           server_log w @ [cross_mark @ '' Email send failed: '' @ e]"
  using assms
  by (simp_all add: handler_simps valid_submission_def store_ok_def query_after_insert
      sendConfirmationEmail_failed world_field_simps split: option.split)

text \<open>
  C5. When the audit file cannot be opened in Step 4 of a valid submission whose store
  statements went through, the caller gets the same response as when the file opens: the
  status 200 acknowledgment. The file is left as it was.
\<close>

theorem C5_audit_failure_swallowed:
  assumes "valid_submission r"
    and "store_ok ev"
    and "open_err ev = Some e"
    and "handleEmailSubscription ev r w = (resp, w')"
  shows "status resp = 200 \<and>
         resp = acknowledgment (FormValue r ''email'') \<and>
         resp = fst (handleEmailSubscription (ev\<lparr>open_err := None\<rparr>) r w) \<and>
         audit_file w' = audit_file w"
proof -
  have resp: "resp = fst (handleEmailSubscription ev r w)"
    and w': "w' = snd (handleEmailSubscription ev r w)"
    using assms(4) by simp_all
  have ok: "store_ok (ev\<lparr>open_err := None\<rparr>)"
    using assms(2) by (simp add: store_ok_def)
  have "resp = acknowledgment (FormValue r ''email'')"
    unfolding resp by (rule success_response [OF assms(1,2)])
  moreover have "fst (handleEmailSubscription (ev\<lparr>open_err := None\<rparr>) r w) =
      acknowledgment (FormValue r ''email'')"
    by (rule success_response [OF assms(1) ok])
  moreover have "audit_file w' = audit_file w"
    unfolding w' using assms(3) by (simp add: success_audit [OF assms(1,2)])
  ultimately show ?thesis by (simp add: acknowledgment_def)
qed

theorem C5_audit_failure_witness:
  "valid_submission (post_subscription ''a@example.com'' ''hello'') \<and>
   store_ok readonly_env \<and>
   open_err readonly_env = Some ''open subscribers_emails.txt: read-only file system'' \<and>
   status (fst (handleEmailSubscription readonly_env (post_subscription ''a@example.com'' ''hello'') empty_world)) = 200 \<and>
   fst (handleEmailSubscription readonly_env (post_subscription ''a@example.com'' ''hello'') empty_world) =
     acknowledgment ''a@example.com'' \<and>
   audit_file (snd (handleEmailSubscription readonly_env (post_subscription ''a@example.com'' ''hello'') empty_world)) = None"
proof -
  have v: "valid_submission (post_subscription ''a@example.com'' ''hello'')"
    by (simp add: valid_submission_def post_subscription_def FormValue_def)
  have s: "store_ok readonly_env"
    by (simp add: store_ok_def readonly_env_def quiet_env_def)
  have e: "open_err readonly_env = Some ''open subscribers_emails.txt: read-only file system''"
    by (simp add: readonly_env_def)
  from C5_audit_failure_swallowed [OF v s e, of empty_world
      "fst (handleEmailSubscription readonly_env (post_subscription ''a@example.com'' ''hello'') empty_world)"
      "snd (handleEmailSubscription readonly_env (post_subscription ''a@example.com'' ''hello'') empty_world)"]
  show ?thesis using v s e
    by (simp add: empty_world_def FormValue_post acknowledgment_def)
qed

text \<open>
  C6. When the mail transport fails in Step 5 of a valid submission whose store
  statements went through, the caller gets status 200 and the acknowledgment naming the
  submitted email, the same response as when the mail is delivered. Nothing reaches the
  outbox, and the failure is only written to the server log.
\<close>

theorem C6_notifier_failure_swallowed:
  assumes "valid_submission r"
    and "store_ok ev"
    and "smtp_err ev = Some e"
    and "handleEmailSubscription ev r w = (resp, w')"
  shows "status resp = 200 \<and>
         body resp = check_mark @ '' Thanks '' @ FormValue r ''email'' @ ''! Confirmation sent.'' \<and>
         resp = fst (handleEmailSubscription (ev\<lparr>smtp_err := None\<rparr>) r w) \<and>
         outbox w' = outbox w \<and>
         server_log w' = server_log w @ [cross_mark @ '' Email send failed: '' @ e]"
proof -
  have resp: "resp = fst (handleEmailSubscription ev r w)"
    and w': "w' = snd (handleEmailSubscription ev r w)"
    using assms(4) by simp_all
  have ok: "store_ok (ev\<lparr>smtp_err := None\<rparr>)"
    using assms(2) by (simp add: store_ok_def)
  have "resp = acknowledgment (FormValue r ''email'')"
    unfolding resp by (rule success_response [OF assms(1,2)])
  moreover have "fst (handleEmailSubscription (ev\<lparr>smtp_err := None\<rparr>) r w) =
      acknowledgment (FormValue r ''email'')"
    by (rule success_response [OF assms(1) ok])
  moreover have "outbox w' = outbox w"
    "server_log w' = server_log w @ [cross_mark @ '' Email send failed: '' @ e]"
    unfolding w' by (rule success_notifier_failed [OF assms(1-3)])+
  ultimately show ?thesis by (simp add: acknowledgment_def)
qed

theorem C6_notifier_failure_witness:
  "valid_submission (post_subscription ''a@example.com'' ''hello'') \<and>
   store_ok offline_env \<and>
   smtp_err offline_env = Some ''dial tcp: i/o timeout'' \<and>
   status (fst (handleEmailSubscription offline_env (post_subscription ''a@example.com'' ''hello'') empty_world)) = 200 \<and>
   body (fst (handleEmailSubscription offline_env (post_subscription ''a@example.com'' ''hello'') empty_world)) =
     check_mark @ '' Thanks a@example.com! Confirmation sent.'' \<and>
   outbox (snd (handleEmailSubscription offline_env (post_subscription ''a@example.com'' ''hello'') empty_world)) = []"
proof -
  have v: "valid_submission (post_subscription ''a@example.com'' ''hello'')"
    by (simp add: valid_submission_def post_subscription_def FormValue_def)
  have s: "store_ok offline_env"
    by (simp add: store_ok_def offline_env_def quiet_env_def)
  have e: "smtp_err offline_env = Some ''dial tcp: i/o timeout''"
    by (simp add: offline_env_def)
  let ?H = "handleEmailSubscription offline_env (post_subscription ''a@example.com'' ''hello'') empty_world"
  have pc: "?H = (fst ?H, snd ?H)" by simp
  from C6_notifier_failure_swallowed [OF v s e pc]
  have "status (fst ?H) = 200"
    and "body (fst ?H) =
      check_mark @ '' Thanks '' @ FormValue (post_subscription ''a@example.com'' ''hello'') ''email'' @
        ''! Confirmation sent.''"
    and "outbox (snd ?H) = outbox empty_world"
    by blast+
  then show ?thesis using v s e
    by (simp add: empty_world_def FormValue_post)
qed

section \<open>Submitting twice\<close>

lemma resolved_id_fresh:
  assumes "email \<notin> set (map sub_email (subscribers w))"
  shows "resolved_id email w = next_rowid (map sub_id (subscribers w)) (subscribers_seq w)"
proof -
  from assms have "find (\<lambda>s. sub_email s = email) (subscribers w) = None"
    by (auto simp: find_None_iff)
  then show ?thesis by (simp add: resolved_id_def)
qed

lemma resolved_id_appended:
  assumes "email \<notin> set (map sub_email rows)" "subscribers w = rows @ [\<lparr>sub_id = sid, sub_email = email\<rparr>]"
  shows "resolved_id email w = sid"
proof -
  from assms(1) have "find (\<lambda>s. sub_email s = email) rows = None"
    by (auto simp: find_None_iff)
  then show ?thesis by (simp add: resolved_id_def assms(2) find_app)
qed

text \<open>
  C1. Two valid submissions of the same email, one after the other, with the store going
  through both times, starting from a store in which the email is not yet subscribed and
  every message references an existing subscriber (the empty store is one): afterwards
  the subscribers table holds exactly one row for the email, the second submission left
  the subscribers table as the first one made it, and exactly two Message rows reference
  that row's id, carrying the two submitted messages.
\<close>

theorem C1_twice_one_subscriber_two_messages:
  assumes v1: "valid_submission r1" and v2: "valid_submission r2"
    and e1: "FormValue r1 ''email'' = email" and e2: "FormValue r2 ''email'' = email"
    and s1: "store_ok ev1" and s2: "store_ok ev2"
    and fresh: "email \<notin> set (map sub_email (subscribers w))"
    and fk: "\<forall>m \<in> set (messages w). msg_subscriber_id m \<in> set (map sub_id (subscribers w))"
    and h1: "handleEmailSubscription ev1 r1 w = (resp1, w1)"
    and h2: "handleEmailSubscription ev2 r2 w1 = (resp2, w2)"
  shows "status resp1 = 200 \<and> status resp2 = 200 \<and>
         subscribers w2 = subscribers w1 \<and>
         (\<exists>sid. subscriber_rows email w2 = [\<lparr>sub_id = sid, sub_email = email\<rparr>] \<and>
                length (message_rows sid w2) = 2 \<and>
                map msg_message (message_rows sid w2) =
                  [FormValue r1 ''message'', FormValue r2 ''message''])"
proof -
  define sid where "sid = next_rowid (map sub_id (subscribers w)) (subscribers_seq w)"
  have w1: "w1 = snd (handleEmailSubscription ev1 r1 w)"
    and w2: "w2 = snd (handleEmailSubscription ev2 r2 w1)"
    and r1: "resp1 = fst (handleEmailSubscription ev1 r1 w)"
    and r2: "resp2 = fst (handleEmailSubscription ev2 r2 w1)"
    using h1 h2 by simp_all
  have st: "status resp1 = 200" "status resp2 = 200"
    unfolding r1 r2 by (simp_all add: success_response v1 v2 s1 s2 acknowledgment_def)
  have subs1: "subscribers w1 = subscribers w @ [\<lparr>sub_id = sid, sub_email = email\<rparr>]"
    unfolding w1 using fresh by (simp add: success_subscribers [OF v1 s1] e1 sid_def)
  have subs2: "subscribers w2 = subscribers w1"
    unfolding w2 by (simp add: success_subscribers [OF v2 s2] e2 subs1)
  have rows: "subscriber_rows email w2 = [\<lparr>sub_id = sid, sub_email = email\<rparr>]"
    using fresh by (auto simp: subscriber_rows_def subs2 subs1 filter_empty_conv)
  have id1: "resolved_id email w = sid"
    unfolding sid_def by (rule resolved_id_fresh [OF fresh])
  have id2: "resolved_id email w1 = sid"
    by (rule resolved_id_appended [OF fresh subs1])
  have "sid \<notin> set (map sub_id (subscribers w))"
    unfolding sid_def by (rule next_rowid_fresh)
  with fk have old: "filter (\<lambda>m. msg_subscriber_id m = sid) (messages w) = []"
    by (auto simp: filter_empty_conv)
  have msgs1: "messages w1 = messages w @
      [\<lparr>msg_id = next_rowid (map msg_id (messages w)) (messages_seq w), msg_subscriber_id = sid,
        msg_message = FormValue r1 ''message'', msg_created_at = now ev1\<rparr>]"
    unfolding w1 by (simp add: success_messages [OF v1 s1] e1 id1)
  have msgs2: "messages w2 = messages w1 @
      [\<lparr>msg_id = next_rowid (map msg_id (messages w1)) (messages_seq w1), msg_subscriber_id = sid,
        msg_message = FormValue r2 ''message'', msg_created_at = now ev2\<rparr>]"
    unfolding w2 by (simp add: success_messages [OF v2 s2] e2 id2)
  have two: "map msg_message (message_rows sid w2) =
      [FormValue r1 ''message'', FormValue r2 ''message'']"
    by (simp add: message_rows_def msgs2 msgs1 old)
  then have "length (map msg_message (message_rows sid w2)) = 2" by simp
  then have len: "length (message_rows sid w2) = 2" by simp
  have "\<exists>sid. subscriber_rows email w2 = [\<lparr>sub_id = sid, sub_email = email\<rparr>] \<and>
                length (message_rows sid w2) = 2 \<and>
                map msg_message (message_rows sid w2) =
                  [FormValue r1 ''message'', FormValue r2 ''message'']"
    by (intro exI [where x = sid] conjI rows len two)
  with st subs2 show ?thesis by simp
qed

theorem C1_twice_witness:
  "valid_submission (post_subscription ''a@example.com'' ''hello'') \<and>
   valid_submission (post_subscription ''a@example.com'' ''again'') \<and>
   store_ok quiet_env \<and>
   ''a@example.com'' \<notin> set (map sub_email (subscribers empty_world)) \<and>
   messages empty_world = [] \<and>
   (\<exists>sid. subscriber_rows ''a@example.com''
            (snd (handleEmailSubscription quiet_env (post_subscription ''a@example.com'' ''again'')
               (snd (handleEmailSubscription quiet_env (post_subscription ''a@example.com'' ''hello'') empty_world)))) =
            [\<lparr>sub_id = sid, sub_email = ''a@example.com''\<rparr>] \<and>
          length (message_rows sid
            (snd (handleEmailSubscription quiet_env (post_subscription ''a@example.com'' ''again'')
               (snd (handleEmailSubscription quiet_env (post_subscription ''a@example.com'' ''hello'') empty_world))))) = 2)"
proof -
  let ?r1 = "post_subscription ''a@example.com'' ''hello''"
  let ?r2 = "post_subscription ''a@example.com'' ''again''"
  let ?H1 = "handleEmailSubscription quiet_env ?r1 empty_world"
  let ?H2 = "handleEmailSubscription quiet_env ?r2 (snd ?H1)"
  have v: "valid_submission ?r1" "valid_submission ?r2"
    by (simp_all add: valid_submission_def post_subscription_def FormValue_def)
  have e: "FormValue ?r1 ''email'' = ''a@example.com''" "FormValue ?r2 ''email'' = ''a@example.com''"
    by (simp_all add: FormValue_post)
  have s: "store_ok quiet_env"
    by (simp add: store_ok_def quiet_env_def)
  have fresh: "''a@example.com'' \<notin> set (map sub_email (subscribers empty_world))"
    by (simp add: empty_world_def)
  have fk: "\<forall>m \<in> set (messages empty_world). msg_subscriber_id m \<in> set (map sub_id (subscribers empty_world))"
    by (simp add: empty_world_def)
  have p1: "?H1 = (fst ?H1, snd ?H1)" and p2: "?H2 = (fst ?H2, snd ?H2)"
    by simp_all
  from C1_twice_one_subscriber_two_messages [OF v e s s fresh fk p1 p2]
  have "\<exists>sid. subscriber_rows ''a@example.com'' (snd ?H2) = [\<lparr>sub_id = sid, sub_email = ''a@example.com''\<rparr>] \<and>
          length (message_rows sid (snd ?H2)) = 2"
    by blast
  moreover have "messages empty_world = []"
    by (simp add: empty_world_def)
  ultimately show ?thesis using v s fresh by blast
qed

section \<open>Sequences of submissions\<close>

lemma rejected_status:
  assumes "\<not> valid_submission r"
  shows "status (fst (handleEmailSubscription ev r w)) = 405 \<or>
         status (fst (handleEmailSubscription ev r w)) = 400"
  using assms
  by (auto simp: handleEmailSubscription_def Let_def valid_submission_def http_Error_def
      StatusMethodNotAllowed_def StatusBadRequest_def)

lemma status_200D:
  assumes "status (fst (handleEmailSubscription ev r w)) = 200"
  shows "valid_submission r \<and> store_ok ev"
proof -
  have v: "valid_submission r"
    using rejected_status [of r ev w] assms by auto
  have "store_ok ev"
    using failure_status [OF v, of ev w] assms by auto
  with v show ?thesis by simp
qed

lemma submit_all_Cons:
  "fst (submit_all ((ev, r) # rest) w) =
     fst (handleEmailSubscription ev r w) # fst (submit_all rest (snd (handleEmailSubscription ev r w)))"
  "snd (submit_all ((ev, r) # rest) w) = snd (submit_all rest (snd (handleEmailSubscription ev r w)))"
  by (simp_all add: case_prod_beta)

lemma no_rows:
  "email \<notin> set (map sub_email rows) \<Longrightarrow> filter (\<lambda>s. sub_email s = email) rows = []"
  by (induction rows) auto

lemma some_rows:
  "email \<in> set (map sub_email rows) \<Longrightarrow> filter (\<lambda>s. sub_email s = email) rows \<noteq> []"
  by (induction rows) auto

lemma success_row_count:
  assumes "valid_submission r" "store_ok ev" "length (subscriber_rows (FormValue r ''email'') w) \<le> 1"
  shows "length (subscriber_rows (FormValue r ''email'') (snd (handleEmailSubscription ev r w))) = 1"
proof (cases "FormValue r ''email'' \<in> set (map sub_email (subscribers w))")
  case True
  then have "subscriber_rows (FormValue r ''email'') w \<noteq> []"
    unfolding subscriber_rows_def by (rule some_rows)
  then have "length (subscriber_rows (FormValue r ''email'') w) \<noteq> 0" by simp
  with assms(3) have "length (subscriber_rows (FormValue r ''email'') w) = 1" by linarith
  with True show ?thesis
    by (simp add: subscriber_rows_def success_subscribers [OF assms(1,2)])
next
  case False
  then have "filter (\<lambda>s. sub_email s = FormValue r ''email'') (subscribers w) = []"
    by (rule no_rows)
  with False show ?thesis
    by (simp add: subscriber_rows_def success_subscribers [OF assms(1,2)])
qed

lemma run_statuses:
  assumes "\<forall>(ev, r) \<in> set subs. valid_submission r \<and> store_ok ev"
  shows "list_all (\<lambda>resp. status resp = 200) (fst (submit_all subs w))"
  using assms
proof (induction subs arbitrary: w)
  case Nil
  then show ?case by simp
next
  case (Cons p subs)
  obtain ev r where p: "p = (ev, r)" by (cases p)
  from Cons.prems p have "valid_submission r" "store_ok ev" by simp_all
  then have "status (fst (handleEmailSubscription ev r w)) = 200"
    by (simp add: success_response acknowledgment_def)
  moreover have "list_all (\<lambda>resp. status resp = 200)
      (fst (submit_all subs (snd (handleEmailSubscription ev r w))))"
    using Cons.prems by (intro Cons.IH) simp
  ultimately show ?case by (simp add: p submit_all_Cons del: submit_all.simps(2))
qed

lemma same_email_audit:
  assumes "\<forall>(ev, r) \<in> set subs. valid_submission r \<and> FormValue r ''email'' = email \<and>
             store_ok ev \<and> open_err ev = None \<and> write_err ev = None"
  shows "file_content (audit_file (snd (submit_all subs w))) =
           file_content (audit_file w) @ concat (replicate (length subs) (email @ nl)) \<and>
         (subs \<noteq> [] \<longrightarrow> audit_file (snd (submit_all subs w)) \<noteq> None)"
  using assms
proof (induction subs arbitrary: w)
  case Nil
  then show ?case by simp
next
  case (Cons p subs)
  obtain ev r where p: "p = (ev, r)" by (cases p)
  let ?w1 = "snd (handleEmailSubscription ev r w)"
  from Cons.prems p have v: "valid_submission r" and s: "store_ok ev"
    and e: "FormValue r ''email'' = email" and o: "open_err ev = None"
    and wr: "write_err ev = None"
    by simp_all
  have a1: "audit_file ?w1 = Some (file_content (audit_file w) @ email @ nl)"
    by (simp add: success_audit [OF v s] e o wr)
  have IH: "file_content (audit_file (snd (submit_all subs ?w1))) =
           file_content (audit_file ?w1) @ concat (replicate (length subs) (email @ nl)) \<and>
         (subs \<noteq> [] \<longrightarrow> audit_file (snd (submit_all subs ?w1)) \<noteq> None)"
    using Cons.prems by (intro Cons.IH) simp
  show ?case
  proof (cases "subs = []")
    case True
    then show ?thesis by (simp add: p submit_all_Cons a1 file_content_def del: submit_all.simps(2))
  next
    case False
    with IH show ?thesis by (simp add: p submit_all_Cons a1 file_content_def del: submit_all.simps(2))
  qed
qed

lemma same_email_rows:
  assumes "\<forall>(ev, r) \<in> set subs. valid_submission r \<and> FormValue r ''email'' = email \<and> store_ok ev"
    and "length (subscriber_rows email w) \<le> 1"
  shows "length (subscriber_rows email (snd (submit_all subs w))) \<le> 1 \<and>
         (subs \<noteq> [] \<longrightarrow> length (subscriber_rows email (snd (submit_all subs w))) = 1)"
  using assms
proof (induction subs arbitrary: w)
  case Nil
  then show ?case by simp
next
  case (Cons p subs)
  obtain ev r where p: "p = (ev, r)" by (cases p)
  let ?w1 = "snd (handleEmailSubscription ev r w)"
  from Cons.prems p have v: "valid_submission r" and s: "store_ok ev"
    and e: "FormValue r ''email'' = email"
    by simp_all
  have one: "length (subscriber_rows email ?w1) = 1"
    using success_row_count [OF v s, of w] Cons.prems(2) by (simp add: e)
  have IH: "length (subscriber_rows email (snd (submit_all subs ?w1))) \<le> 1 \<and>
         (subs \<noteq> [] \<longrightarrow> length (subscriber_rows email (snd (submit_all subs ?w1))) = 1)"
    using Cons.prems(1) one by (intro Cons.IH) simp_all
  show ?case
  proof (cases "subs = []")
    case True
    with one show ?thesis by (simp add: p submit_all_Cons del: submit_all.simps(2))
  next
    case False
    with IH show ?thesis by (simp add: p submit_all_Cons del: submit_all.simps(2))
  qed
qed

lemma valid_post:
  "email \<noteq> [] \<Longrightarrow> message \<noteq> [] \<Longrightarrow> valid_submission (post_subscription email message)"
  "FormValue (post_subscription email message) ''email'' = email"
  by (simp_all add: valid_submission_def post_subscription_def FormValue_def)

lemma successful_run:
  assumes "list_all (\<lambda>resp. status resp = 200) (fst (submit_all subs w))"
  shows "\<forall>(ev, r) \<in> set subs. valid_submission r \<and> store_ok ev"
  using assms
proof (induction subs arbitrary: w)
  case Nil
  then show ?case by simp
next
  case (Cons p subs)
  obtain ev r where p: "p = (ev, r)" by (cases p)
  from Cons.prems have hd: "status (fst (handleEmailSubscription ev r w)) = 200"
    and tl: "list_all (\<lambda>resp. status resp = 200)
               (fst (submit_all subs (snd (handleEmailSubscription ev r w))))"
    by (simp_all add: p submit_all_Cons del: submit_all.simps(2))
  from status_200D [OF hd] Cons.IH [OF tl] show ?case by (simp add: p)
qed

lemma distinct_run:
  assumes "\<forall>(ev, r) \<in> set subs. valid_submission r \<and> store_ok ev"
    and "distinct (submitted_emails subs)"
    and "set (submitted_emails subs) \<inter> set (map sub_email (subscribers w)) = {}"
  shows "map sub_email (subscribers (snd (submit_all subs w))) =
           map sub_email (subscribers w) @ submitted_emails subs"
  using assms
proof (induction subs arbitrary: w)
  case Nil
  then show ?case by (simp add: submitted_emails_def)
next
  case (Cons p subs)
  obtain ev r where p: "p = (ev, r)" by (cases p)
  let ?w1 = "snd (handleEmailSubscription ev r w)"
  let ?e = "FormValue r ''email''"
  from Cons.prems p have v: "valid_submission r" and s: "store_ok ev" by simp_all
  from Cons.prems(3) p have fresh: "?e \<notin> set (map sub_email (subscribers w))"
    by (simp add: submitted_emails_def)
  have w1: "map sub_email (subscribers ?w1) = map sub_email (subscribers w) @ [?e]"
    using fresh by (simp add: success_subscribers [OF v s])
  have d: "distinct (submitted_emails subs)" and ne: "?e \<notin> set (submitted_emails subs)"
    using Cons.prems(2) p by (simp_all add: submitted_emails_def)
  have disj: "set (submitted_emails subs) \<inter> set (map sub_email (subscribers ?w1)) = {}"
    using Cons.prems(3) ne unfolding w1 by (auto simp: submitted_emails_def)
  have "map sub_email (subscribers (snd (submit_all subs ?w1))) =
           map sub_email (subscribers ?w1) @ submitted_emails subs"
    using Cons.prems(1) d disj by (intro Cons.IH) simp_all
  then show ?case
    by (simp add: p submit_all_Cons w1 submitted_emails_def del: submit_all.simps(2))
qed

text \<open>
  C10, amended. A run of one or more valid submissions of the same email, each with the
  store going through, the audit file opening and the write to it going through, starting
  from a store with at most one row for that email (it may already be subscribed): every
  submission is answered 200 and appends the email and a newline to the audit file, also
  when Step 1 inserted nothing, so that the file grows by as many copies of the line as
  there were submissions, while the subscribers table ends with exactly one row for the
  email.
\<close>

theorem C10_audit_line_per_submission:
  assumes "\<forall>(ev, r) \<in> set subs. valid_submission r \<and> FormValue r ''email'' = email \<and>
             store_ok ev \<and> open_err ev = None \<and> write_err ev = None"
    and "subs \<noteq> []"
    and "length (subscriber_rows email w) \<le> 1"
    and "submit_all subs w = (resps, w')"
  shows "list_all (\<lambda>resp. status resp = 200) resps \<and>
         audit_file w' =
           Some (file_content (audit_file w) @ concat (replicate (length subs) (email @ nl))) \<and>
         length (subscriber_rows email w') = 1"
proof -
  have resps: "resps = fst (submit_all subs w)" and w': "w' = snd (submit_all subs w)"
    using assms(4) by simp_all
  have ok: "\<forall>(ev, r) \<in> set subs. valid_submission r \<and> store_ok ev"
    and ok': "\<forall>(ev, r) \<in> set subs. valid_submission r \<and> FormValue r ''email'' = email \<and> store_ok ev"
    using assms(1) by auto
  have "list_all (\<lambda>resp. status resp = 200) resps"
    unfolding resps by (rule run_statuses [OF ok])
  moreover have "audit_file w' =
           Some (file_content (audit_file w) @ concat (replicate (length subs) (email @ nl)))"
    using same_email_audit [OF assms(1), of w] assms(2)
    unfolding w' by (auto simp: file_content_def split: option.splits)
  moreover have "length (subscriber_rows email w') = 1"
    using same_email_rows [OF ok' assms(3)] assms(2) unfolding w' by simp
  ultimately show ?thesis by simp
qed

theorem C10_audit_line_witness:
  "valid_submission (post_subscription ''a@example.com'' ''one'') \<and>
   valid_submission (post_subscription ''a@example.com'' ''two'') \<and>
   valid_submission (post_subscription ''a@example.com'' ''three'') \<and>
   store_ok quiet_env \<and> open_err quiet_env = None \<and> write_err quiet_env = None \<and>
   store_ok offline_env \<and> open_err offline_env = None \<and> write_err offline_env = None \<and>
   length (subscriber_rows ''a@example.com'' empty_world) \<le> 1 \<and>
   audit_file (snd (submit_all [(quiet_env, post_subscription ''a@example.com'' ''one''),
                                (offline_env, post_subscription ''a@example.com'' ''two''),
                                (quiet_env, post_subscription ''a@example.com'' ''three'')] empty_world)) =
     Some (''a@example.com'' @ nl @ ''a@example.com'' @ nl @ ''a@example.com'' @ nl) \<and>
   length (subscriber_rows ''a@example.com''
     (snd (submit_all [(quiet_env, post_subscription ''a@example.com'' ''one''),
                       (offline_env, post_subscription ''a@example.com'' ''two''),
                       (quiet_env, post_subscription ''a@example.com'' ''three'')] empty_world))) = 1"
proof -
  let ?subs = "[(quiet_env, post_subscription ''a@example.com'' ''one''),
                (offline_env, post_subscription ''a@example.com'' ''two''),
                (quiet_env, post_subscription ''a@example.com'' ''three'')]"
  let ?S = "submit_all ?subs empty_world"
  have h: "\<forall>(ev, r) \<in> set ?subs.
      valid_submission r \<and> FormValue r ''email'' = ''a@example.com'' \<and> store_ok ev \<and>
      open_err ev = None \<and> write_err ev = None"
    by (simp add: valid_post store_ok_def quiet_env_def offline_env_def)
  have n: "?subs \<noteq> []" by simp
  have u: "length (subscriber_rows ''a@example.com'' empty_world) \<le> 1"
    by (simp add: subscriber_rows_def empty_world_def)
  have pc: "?S = (fst ?S, snd ?S)" by simp
  from C10_audit_line_per_submission [OF h n u pc]
  have "audit_file (snd ?S) =
      Some (file_content (audit_file empty_world) @
            concat (replicate (length ?subs) (''a@example.com'' @ nl)))"
    and "length (subscriber_rows ''a@example.com'' (snd ?S)) = 1"
    by blast+
  then have "audit_file (snd ?S) =
      Some (''a@example.com'' @ nl @ ''a@example.com'' @ nl @ ''a@example.com'' @ nl)"
    and "length (subscriber_rows ''a@example.com'' (snd ?S)) = 1"
    by (simp_all add: empty_world_def file_content_def numeral_3_eq_3)
  moreover have "valid_submission (post_subscription ''a@example.com'' ''one'')"
    "valid_submission (post_subscription ''a@example.com'' ''two'')"
    "valid_submission (post_subscription ''a@example.com'' ''three'')"
    "store_ok quiet_env" "open_err quiet_env = None" "write_err quiet_env = None"
    "store_ok offline_env" "open_err offline_env = None" "write_err offline_env = None"
    using h by simp_all
  ultimately show ?thesis using u by blast
qed

text \<open>
  C10 without the condition on the write does not hold: the source drops the result of
  \<^verbatim>\<open>f.WriteString\<close>, so a submission whose three statements go through and whose audit
  file opens, but whose write fails before any byte is out (a full disk), is answered 200
  and leaves the file, just created, without the email.
\<close>

theorem C10_failed_write_counterexample:
  "valid_submission (post_subscription ''a@example.com'' ''hello'') \<and>
   store_ok disk_full_env \<and>
   open_err disk_full_env = None \<and>
   status (fst (handleEmailSubscription disk_full_env
                  (post_subscription ''a@example.com'' ''hello'') empty_world)) = 200 \<and>
   audit_file (snd (handleEmailSubscription disk_full_env
                      (post_subscription ''a@example.com'' ''hello'') empty_world)) = Some []"
proof -
  have v: "valid_submission (post_subscription ''a@example.com'' ''hello'')"
    by (simp add: valid_post)
  have s: "store_ok disk_full_env" and o: "open_err disk_full_env = None"
    and wr: "write_err disk_full_env =
               Some (0, ''write subscribers_emails.txt: no space left on device'')"
    by (simp_all add: store_ok_def disk_full_env_def quiet_env_def)
  have "status (fst (handleEmailSubscription disk_full_env
                  (post_subscription ''a@example.com'' ''hello'') empty_world)) = 200"
    by (simp add: success_response [OF v s] acknowledgment_def)
  moreover have "audit_file (snd (handleEmailSubscription disk_full_env
                      (post_subscription ''a@example.com'' ''hello'') empty_world)) = Some []"
    by (simp add: success_audit [OF v s] o wr empty_world_def file_content_def)
  ultimately show ?thesis using v s o by simp
qed

section \<open>Listing and export\<close>

lemma lines_of_line:
  "CHR 0x0A \<notin> set e \<Longrightarrow> lines_of (e @ nl @ rest) = e # lines_of rest"
  by (induction e) (auto simp: nl_def)

lemma Fprintln_rows_eq: "Fprintln_rows rows out = out @ concat (map (\<lambda>e. e @ nl) rows)"
  by (induction rows arbitrary: out) simp_all

lemma lines_of_rows:
  "\<forall>e \<in> set rows. CHR 0x0A \<notin> set e \<Longrightarrow> lines_of (concat (map (\<lambda>e. e @ nl) rows)) = rows"
  by (induction rows) (simp_all add: lines_of_line)

lemma listing_response:
  assumes "query_emails_err ev = None"
  shows "fst (handleListSubscribers ev r w) =
     \<lparr>status = 200, body = concat (map (\<lambda>e. e @ nl) (map sub_email (scan_order ev (subscribers w))))\<rparr>"
  using assms
  by (simp add: handleListSubscribers_def db_query_emails_def Let_def Fprintln_rows_eq StatusOK_def)

text \<open>
  C7, amended. After successful submissions (each answered 200) with pairwise distinct
  emails, starting from an empty subscribers table, a listing whose query goes through
  and whose scan delivers every row once is answered 200 with a body made of one record
  per submission: each stored email followed by a newline, in the scan's order, the stored
  emails being the submitted ones, each once. When no submitted email contains a newline
  byte, the body has exactly as many lines as there were submissions, and the lines are
  the submitted emails, each once, in some order.
\<close>

theorem C7_listing_one_line_per_subscriber:
  assumes "submit_all subs w = (resps, w')"
    and "list_all (\<lambda>resp. status resp = 200) resps"
    and "distinct (submitted_emails subs)"
    and "subscribers w = []"
    and "query_emails_err ev = None"
    and "mset (scan_order ev (subscribers w')) = mset (subscribers w')"
    and "handleListSubscribers ev r w' = (resp, w'')"
  shows "status resp = 200 \<and>
         body resp = concat (map (\<lambda>e. e @ nl) (map sub_email (scan_order ev (subscribers w')))) \<and>
         length (scan_order ev (subscribers w')) = length subs \<and>
         mset (map sub_email (scan_order ev (subscribers w'))) = mset (submitted_emails subs) \<and>
         ((\<forall>e \<in> set (submitted_emails subs). CHR 0x0A \<notin> set e) \<longrightarrow>
            length (lines_of (body resp)) = length subs \<and>
            mset (lines_of (body resp)) = mset (submitted_emails subs))"
proof -
  have resps: "resps = fst (submit_all subs w)" and w': "w' = snd (submit_all subs w)"
    using assms(1) by simp_all
  have resp: "resp = fst (handleListSubscribers ev r w')"
    using assms(7) by simp
  have ok: "\<forall>(ev, r) \<in> set subs. valid_submission r \<and> store_ok ev"
    using assms(2) unfolding resps by (rule successful_run)
  have stored: "map sub_email (subscribers w') = submitted_emails subs"
    unfolding w' using distinct_run [OF ok assms(3), of w] assms(4) by simp
  let ?listed = "map sub_email (scan_order ev (subscribers w'))"
  have perm: "mset ?listed = mset (submitted_emails subs)"
    using assms(6) stored by (metis mset_map)
  have r: "resp = \<lparr>status = 200, body = concat (map (\<lambda>e. e @ nl) ?listed)\<rparr>"
    unfolding resp by (rule listing_response [OF assms(5)])
  have "length ?listed = length subs"
    using perm by (metis size_mset length_map submitted_emails_def)
  then have len: "length (scan_order ev (subscribers w')) = length subs"
    by simp
  have lines: "length (lines_of (body resp)) = length subs \<and>
      mset (lines_of (body resp)) = mset (submitted_emails subs)"
    if nonl: "\<forall>e \<in> set (submitted_emails subs). CHR 0x0A \<notin> set e"
  proof -
    from perm have "set ?listed = set (submitted_emails subs)"
      by (rule mset_eq_setD)
    with nonl have "\<forall>e \<in> set ?listed. CHR 0x0A \<notin> set e" by simp
    then have "lines_of (concat (map (\<lambda>e. e @ nl) ?listed)) = ?listed"
      by (rule lines_of_rows)
    then show ?thesis using perm len by (simp add: r)
  qed
  have "status resp = 200"
    and "body resp = concat (map (\<lambda>e. e @ nl) ?listed)"
    by (simp_all add: r)
  with len perm lines show ?thesis by blast
qed

theorem C7_listing_witness:
  "list_all (\<lambda>resp. status resp = 200)
     (fst (submit_all [(quiet_env, post_subscription ''a@example.com'' ''hello''),
                       (readonly_env, post_subscription ''b@example.com'' ''hi'')] empty_world)) \<and>
   distinct (submitted_emails [(quiet_env, post_subscription ''a@example.com'' ''hello''),
                               (readonly_env, post_subscription ''b@example.com'' ''hi'')]) \<and>
   subscribers empty_world = [] \<and>
   length (lines_of (body (fst (handleListSubscribers (quiet_env\<lparr>scan_order := rev\<rparr>)
       (request_to MethodGet ''/subscribers'')
       (snd (submit_all [(quiet_env, post_subscription ''a@example.com'' ''hello''),
                         (readonly_env, post_subscription ''b@example.com'' ''hi'')] empty_world)))))) = 2 \<and>
   mset (lines_of (body (fst (handleListSubscribers (quiet_env\<lparr>scan_order := rev\<rparr>)
       (request_to MethodGet ''/subscribers'')
       (snd (submit_all [(quiet_env, post_subscription ''a@example.com'' ''hello''),
                         (readonly_env, post_subscription ''b@example.com'' ''hi'')] empty_world)))))) =
     mset [''a@example.com'', ''b@example.com''] \<and>
   body (fst (handleListSubscribers quiet_env (request_to MethodGet ''/subscribers'')
       (snd (submit_all [(quiet_env, post_subscription ''a\<newline>b'' ''hello'')] empty_world)))) =
     ''a\<newline>b\<newline>''"
proof -
  let ?subs = "[(quiet_env, post_subscription ''a@example.com'' ''hello''),
                (readonly_env, post_subscription ''b@example.com'' ''hi'')]"
  let ?S = "submit_all ?subs empty_world"
  let ?ev = "quiet_env\<lparr>scan_order := rev\<rparr>"
  let ?L = "handleListSubscribers ?ev (request_to MethodGet ''/subscribers'') (snd ?S)"
  have "\<forall>(ev, r) \<in> set ?subs. valid_submission r \<and> store_ok ev"
    by (simp add: valid_post store_ok_def quiet_env_def readonly_env_def)
  then have ok: "list_all (\<lambda>resp. status resp = 200) (fst ?S)"
    by (rule run_statuses)
  have em: "submitted_emails ?subs = [''a@example.com'', ''b@example.com'']"
    by (simp add: submitted_emails_def FormValue_post)
  have d: "distinct (submitted_emails ?subs)"
    unfolding em by simp
  have e: "subscribers empty_world = []"
    by (simp add: empty_world_def)
  have n: "\<forall>e \<in> set (submitted_emails ?subs). CHR 0x0A \<notin> set e"
    unfolding em by simp
  have q: "query_emails_err ?ev = None"
    by (simp add: quiet_env_def)
  have m: "mset (scan_order ?ev (subscribers (snd ?S))) = mset (subscribers (snd ?S))"
    by simp
  have ps: "?S = (fst ?S, snd ?S)" and pl: "?L = (fst ?L, snd ?L)"
    by simp_all
  from C7_listing_one_line_per_subscriber [OF ps ok d e q m pl] n
  have "length (lines_of (body (fst ?L))) = length ?subs"
    and "mset (lines_of (body (fst ?L))) = mset (submitted_emails ?subs)"
    by blast+
  then have two: "length (lines_of (body (fst ?L))) = 2"
    "mset (lines_of (body (fst ?L))) = mset [''a@example.com'', ''b@example.com'']"
    unfolding em by simp_all
  let ?subs' = "[(quiet_env, post_subscription ''a\<newline>b'' ''hello'')]"
  let ?S' = "submit_all ?subs' empty_world"
  let ?L' = "handleListSubscribers quiet_env (request_to MethodGet ''/subscribers'') (snd ?S')"
  have "\<forall>(ev, r) \<in> set ?subs'. valid_submission r \<and> store_ok ev"
    by (simp add: valid_post store_ok_def quiet_env_def)
  then have ok': "list_all (\<lambda>resp. status resp = 200) (fst ?S')"
    by (rule run_statuses)
  have em': "submitted_emails ?subs' = [''a\<newline>b'']"
    by (simp add: submitted_emails_def FormValue_post)
  have d': "distinct (submitted_emails ?subs')"
    unfolding em' by simp
  have q': "query_emails_err quiet_env = None" and id: "scan_order quiet_env = (\<lambda>rows. rows)"
    by (simp_all add: quiet_env_def)
  have m': "mset (scan_order quiet_env (subscribers (snd ?S'))) = mset (subscribers (snd ?S'))"
    by (simp add: id)
  have ps': "?S' = (fst ?S', snd ?S')" and pl': "?L' = (fst ?L', snd ?L')"
    by simp_all
  let ?listed = "map sub_email (scan_order quiet_env (subscribers (snd ?S')))"
  from C7_listing_one_line_per_subscriber [OF ps' ok' d' e q' m' pl']
  have b: "body (fst ?L') = concat (map (\<lambda>e. e @ nl) ?listed)"
    and p: "mset ?listed = mset (submitted_emails ?subs')"
    by blast+
  from p have "?listed = [''a\<newline>b'']"
    unfolding em' by (simp del: mset_map)
  then have "body (fst ?L') = ''a\<newline>b\<newline>''"
    unfolding b by (simp add: nl_def)
  with ok d e two show ?thesis by blast
qed

text \<open>
  C7 without the condition on newlines does not hold: the handler only checks that the
  email is not empty, so one successful submission of the two-line email below makes the
  listing two lines long, neither of them the submitted email.
\<close>

theorem C7_newline_email_counterexample:
  "map status (fst (submit_all [(quiet_env, post_subscription ''a\<newline>b'' ''hello'')] empty_world)) = [200] \<and>
   lines_of (body (fst (handleListSubscribers quiet_env (request_to MethodGet ''/subscribers'')
     (snd (submit_all [(quiet_env, post_subscription ''a\<newline>b'' ''hello'')] empty_world))))) =
     [''a'', ''b'']"
proof -
  let ?r = "post_subscription ''a\<newline>b'' ''hello''"
  let ?H = "handleEmailSubscription quiet_env ?r empty_world"
  have v: "valid_submission ?r" by (simp add: valid_post)
  have s: "store_ok quiet_env" by (simp add: store_ok_def quiet_env_def)
  have st: "status (fst ?H) = 200"
    by (simp add: success_response [OF v s] acknowledgment_def)
  have "map sub_email (subscribers (snd ?H)) = [''a\<newline>b'']"
    by (simp add: success_subscribers [OF v s] FormValue_post empty_world_def)
  moreover have "scan_order quiet_env = (\<lambda>rows. rows)" "query_emails_err quiet_env = None"
    by (simp_all add: quiet_env_def)
  ultimately have "lines_of (body (fst (handleListSubscribers quiet_env
      (request_to MethodGet ''/subscribers'') (snd ?H)))) = [''a'', ''b'']"
    by (simp add: listing_response nl_def)
  with st show ?thesis
    by (simp add: submit_all_Cons del: submit_all.simps(2))
qed

text \<open>
  C8. The endpoints are meant to be method-constrained, and serveIndex, serveSubscribe,
  handleEmailSubscription and handleFormSubmission answer 405 to the wrong method.
  handleListSubscribers has no such check: a POST to \<^verbatim>\<open>/subscribers\<close>, sent after one
  submission, is answered 200 with the list of emails instead of being rejected.
\<close>

theorem C8_post_to_subscribers_is_served:
  "map_option fst
     (ServeMux quiet_env (request_to MethodPost ''/subscribers'')
        (snd (handleEmailSubscription quiet_env (post_subscription ''a@example.com'' ''hello'')
                empty_world))) =
   Some \<lparr>status = 200, body = ''a@example.com\<newline>''\<rparr>"
proof -
  let ?r = "post_subscription ''a@example.com'' ''hello''"
  let ?H = "handleEmailSubscription quiet_env ?r empty_world"
  have v: "valid_submission ?r" by (simp add: valid_post)
  have s: "store_ok quiet_env" by (simp add: store_ok_def quiet_env_def)
  have "map sub_email (subscribers (snd ?H)) = [''a@example.com'']"
    by (simp add: success_subscribers [OF v s] FormValue_post empty_world_def)
  moreover have "scan_order quiet_env = (\<lambda>rows. rows)" "query_emails_err quiet_env = None"
    by (simp_all add: quiet_env_def)
  ultimately show ?thesis
    by (simp add: ServeMux_def request_to_def listing_response nl_def)
qed

text \<open>
  C9, amended. handleViewEmails answers 500 when the audit file does not exist, and also
  when it exists but the read fails; when the file exists and the read goes through, it
  answers 200 with exactly the content of the file as body. This holds whatever the
  request, and the file is left as it is.
\<close>

theorem C9_view_emails_returns_file_or_500:
  "(audit_file w = None \<or> read_err ev \<noteq> None \<longrightarrow> status (fst (handleViewEmails ev r w)) = 500) \<and>
   (\<forall>c. audit_file w = Some c \<and> read_err ev = None \<longrightarrow>
        fst (handleViewEmails ev r w) = \<lparr>status = 200, body = c\<rparr>) \<and>
   audit_file (snd (handleViewEmails ev r w)) = audit_file w"
  by (auto simp: handleViewEmails_def os_ReadFile_def Let_def called_def http_Error_def
      StatusInternalServerError_def StatusOK_def split: option.split)

theorem C9_view_emails_witness:
  "audit_file empty_world = None \<and>
   status (fst (handleViewEmails quiet_env (request_to MethodGet ''/view-emails'') empty_world)) = 500 \<and>
   audit_file (empty_world\<lparr>audit_file := Some ''a@example.com\<newline>''\<rparr>) = Some ''a@example.com\<newline>'' \<and>
   read_err quiet_env = None \<and>
   fst (handleViewEmails quiet_env (request_to MethodGet ''/view-emails'')
          (empty_world\<lparr>audit_file := Some ''a@example.com\<newline>''\<rparr>)) =
     \<lparr>status = 200, body = ''a@example.com\<newline>''\<rparr>"
proof -
  let ?r = "request_to MethodGet ''/view-emails''"
  let ?w = "empty_world\<lparr>audit_file := Some ''a@example.com\<newline>''\<rparr>"
  have a: "audit_file empty_world = None" by (simp add: empty_world_def)
  have b: "audit_file ?w = Some ''a@example.com\<newline>''" by simp
  have c: "read_err quiet_env = None" by (simp add: quiet_env_def)
  from C9_view_emails_returns_file_or_500 [of empty_world quiet_env ?r] a
  have "status (fst (handleViewEmails quiet_env ?r empty_world)) = 500"
    by blast
  moreover from C9_view_emails_returns_file_or_500 [of ?w quiet_env ?r] b c
  have "fst (handleViewEmails quiet_env ?r ?w) = \<lparr>status = 200, body = ''a@example.com\<newline>''\<rparr>"
    by blast
  ultimately show ?thesis using a b c by blast
qed

text \<open>
  C9 without the condition on the read does not hold: the handler answers 500 to every
  error of \<^verbatim>\<open>os.ReadFile\<close>, so a file that exists but cannot be read (permission denied)
  gives 500 and the error text, not the content of the file.
\<close>

theorem C9_unreadable_file_counterexample:
  "audit_file (empty_world\<lparr>audit_file := Some ''a@example.com\<newline>''\<rparr>) = Some ''a@example.com\<newline>'' \<and>
   fst (handleViewEmails unreadable_env (request_to MethodGet ''/view-emails'')
          (empty_world\<lparr>audit_file := Some ''a@example.com\<newline>''\<rparr>)) =
     \<lparr>status = 500, body = cross_mark @ '' Cannot read file'' @ nl\<rparr>"
  by (simp add: handleViewEmails_def os_ReadFile_def Let_def called_def http_Error_def
      StatusInternalServerError_def unreadable_env_def empty_world_def)

end
